theory Spec2Isabelle
  imports Complex_Main "HOL-Library.Sublist" "HOL-Library.Log_Nat"
begin

section \<open>JavaScript numbers\<close>

text \<open>
  The grid renderer computes with JavaScript numbers, which are IEEE 754 binary64
  values.  A finite number is kept as the rational it denotes, and every addition,
  subtraction, multiplication and division is the exact result rounded to the nearest
  binary64 value, ties to the even significand, as the language defines them.  Overflow to
  an infinity, \<open>NaN\<close> and the sign of zero are outside the model.

  \<open>fl x\<close> is the binary64 value nearest to \<open>x\<close>.  For \<open>x\<close> with numerator \<open>p\<close> and
  denominator \<open>q\<close>, \<open>binade\<close> finds the \<open>b\<close> with \<open>2^b \<le> |x| < 2^(b+1)\<close>; the exponent
  \<open>e\<close> of the last place is \<open>b - 52\<close>, and not below \<open>-1074\<close>, where the subnormal
  numbers begin; \<open>|x| / 2^e\<close> is rounded to the nearest integer \<open>m\<close>, a tie to the even
  one, and the value is \<open>m * 2^e\<close> with the sign of \<open>x\<close>.
\<close>

definition round_even :: "int \<Rightarrow> int \<Rightarrow> int" where
  "round_even n d =
     (let f = n div d; r = n mod d
      in if 2 * r < d then f
         else if d < 2 * r then f + 1
         else if even f then f else f + 1)"

definition binade :: "int \<Rightarrow> int \<Rightarrow> int" where
  "binade n d =
     (let k = bitlen n - bitlen d
      in if (if 0 \<le> k then d * 2 ^ nat k \<le> n else d \<le> n * 2 ^ nat (- k))
         then k else k - 1)"

definition fl :: "rat \<Rightarrow> rat" where
  "fl x =
     (case quotient_of x of (p, q) \<Rightarrow>
        if p = 0 then 0
        else let e = max (binade \<bar>p\<bar> q - 52) (- 1074);
                 m = (if 0 \<le> e then round_even \<bar>p\<bar> (q * 2 ^ nat e)
                      else round_even (\<bar>p\<bar> * 2 ^ nat (- e)) q)
             in of_int (sgn p * m) * 2 powi e)"

definition js_add :: "rat \<Rightarrow> rat \<Rightarrow> rat" where
  "js_add a b = fl (a + b)"

definition js_sub :: "rat \<Rightarrow> rat \<Rightarrow> rat" where
  "js_sub a b = fl (a - b)"

definition js_mul :: "rat \<Rightarrow> rat \<Rightarrow> rat" where
  "js_mul a b = fl (a * b)"

definition js_div :: "rat \<Rightarrow> rat \<Rightarrow> rat" where
  "js_div a b = fl (a / b)"

text \<open>
  The remainder \<open>a % b\<close> truncates the quotient towards zero, so its result has the sign
  of the dividend \<open>a\<close>; it is exact, the remainder of two binary64 values being one.  For
  \<open>b = 0\<close> JavaScript yields \<open>NaN\<close>, which has no counterpart here, and every statement
  below about \<open>js_rem\<close> is made for a positive divisor.
\<close>

definition js_trunc :: "rat \<Rightarrow> int" where
  "js_trunc q = (if 0 \<le> q then \<lfloor>q\<rfloor> else \<lceil>q\<rceil>)"

definition js_rem :: "rat \<Rightarrow> rat \<Rightarrow> rat" where
  "js_rem a b = a - b * of_int (js_trunc (a / b))"

text \<open>The number that the literal \<open>0.1\<close> denotes.\<close>

definition tenth :: rat where
  "tenth = fl (1 / 10)"

text \<open>The operator \<open>||\<close> on an optional number or string: a missing or falsy left operand
  (\<open>undefined\<close>, \<open>0\<close>, the empty string) selects the default.\<close>

definition or_num :: "rat option \<Rightarrow> rat \<Rightarrow> rat" where
  "or_num v d = (case v of None \<Rightarrow> d | Some x \<Rightarrow> if x = 0 then d else x)"

definition or_str :: "string option \<Rightarrow> string \<Rightarrow> string" where
  "or_str v d = (case v of None \<Rightarrow> d | Some s \<Rightarrow> if s = [] then d else s)"

section \<open>The grid renderer: class SquaresAnimation\<close>

record options =
  opt_direction :: "string option"
  opt_speed :: "rat option"
  opt_borderColor :: "string option"
  opt_squareSize :: "rat option"
  opt_hoverFillColor :: "string option"

text \<open>The result of \<open>canvas.getBoundingClientRect()\<close>.\<close>

record rect =
  rect_left :: rat
  rect_top :: rat
  rect_width :: rat
  rect_height :: rat

record mouse_event =
  clientX :: rat
  clientY :: rat

record squares =
  direction :: string
  speed :: rat
  borderColor :: string
  squareSize :: rat
  hoverFillColor :: string
  numSquaresX :: int
  numSquaresY :: int
  gridOffset_x :: rat
  gridOffset_y :: rat
  hoveredSquare :: "(int \<times> int) option"
  canvas_width :: rat
  canvas_height :: rat

text \<open>A canvas element keeps its \<open>width\<close> and \<open>height\<close> as unsigned integers: assigning
  a non-negative fractional length stores its integer part.  Bounding rectangles have
  non-negative dimensions.\<close>

definition canvas_dim :: "rat \<Rightarrow> rat" where
  "canvas_dim d = of_int \<lfloor>d\<rfloor>"

text \<open>The fields set by the constructor before it calls \<open>setupCanvas\<close>.  The canvas
  dimensions are those of a fresh canvas element until \<open>setupCanvas\<close> assigns them.\<close>

definition new_squares :: "options \<Rightarrow> squares" where
  "new_squares opts =
     \<lparr> direction = or_str (opt_direction opts) ''right'',
       speed = or_num (opt_speed opts) 1,
       borderColor = or_str (opt_borderColor opts) ''#333'',
       squareSize = or_num (opt_squareSize opts) 40,
       hoverFillColor = or_str (opt_hoverFillColor opts) ''#222'',
       numSquaresX = 0,
       numSquaresY = 0,
       gridOffset_x = 0,
       gridOffset_y = 0,
       hoveredSquare = None,
       canvas_width = 300,
       canvas_height = 150 \<rparr>"

definition resizeCanvas :: "rect \<Rightarrow> squares \<Rightarrow> squares" where
  "resizeCanvas r st =
     (let w = canvas_dim (rect_width r);
          h = canvas_dim (rect_height r)
      in st\<lparr> canvas_width := w,
             canvas_height := h,
             numSquaresX := \<lceil>js_div w (squareSize st)\<rceil> + 1,
             numSquaresY := \<lceil>js_div h (squareSize st)\<rceil> + 1 \<rparr>)"

text \<open>\<open>setupCanvas\<close> first sizes the canvas by the device pixel ratio and then calls
  \<open>resizeCanvas\<close>, which assigns the dimensions again.  The style properties and the
  drawing context's scale are not part of the state.\<close>

definition setupCanvas :: "rat option \<Rightarrow> rect \<Rightarrow> squares \<Rightarrow> squares" where
  "setupCanvas devicePixelRatio r st =
     (let dpr = or_num devicePixelRatio 1
      in resizeCanvas r
           (st\<lparr> canvas_width := canvas_dim (js_mul (rect_width r) dpr),
                canvas_height := canvas_dim (js_mul (rect_height r) dpr) \<rparr>))"

definition handleMouseMove :: "rect \<Rightarrow> mouse_event \<Rightarrow> squares \<Rightarrow> squares" where
  "handleMouseMove r ev st =
     (let mouseX = js_sub (clientX ev) (rect_left r);
          mouseY = js_sub (clientY ev) (rect_top r);
          startX = js_mul (of_int \<lfloor>js_div (gridOffset_x st) (squareSize st)\<rfloor>) (squareSize st);
          startY = js_mul (of_int \<lfloor>js_div (gridOffset_y st) (squareSize st)\<rfloor>) (squareSize st);
          hoveredSquareX =
            \<lfloor>js_div (js_sub (js_add mouseX (gridOffset_x st)) startX) (squareSize st)\<rfloor>;
          hoveredSquareY =
            \<lfloor>js_div (js_sub (js_add mouseY (gridOffset_y st)) startY) (squareSize st)\<rfloor>
      in st\<lparr> hoveredSquare := Some (hoveredSquareX, hoveredSquareY) \<rparr>)"

definition handleMouseLeave :: "squares \<Rightarrow> squares" where
  "handleMouseLeave st = st\<lparr> hoveredSquare := None \<rparr>"

definition handleResize :: "rect \<Rightarrow> squares \<Rightarrow> squares" where
  "handleResize r st = resizeCanvas r st"

subsection \<open>Drawing\<close>

text \<open>
  The values taken by the loop variable of \<open>for (let v = start; v < limit; v += step)\<close>,
  each the rounded sum of the one before and the step.  The loop need not end: with a
  step that is not positive, or one too small to change the variable, it never leaves a
  state with \<open>v < limit\<close>; such a run is the value \<open>None\<close>.
\<close>

partial_function (option) for_range :: "rat \<Rightarrow> rat \<Rightarrow> rat \<Rightarrow> rat list option" where
  "for_range v limit step =
     (if v < limit
      then Option.bind (for_range (js_add v step) limit step) (\<lambda>vs. Some (v # vs))
      else Some [])"

declare for_range.simps [code]

text \<open>One square as the renderer draws it: the integer indices it compares with the
  hovered cell, the pixel position of its top left corner, its side, and whether it was
  filled with the hover colour before its border was stroked.\<close>

record cell =
  index_x :: int
  index_y :: int
  squareX :: rat
  squareY :: rat
  side :: rat
  filled :: bool

definition draw_cell :: "squares \<Rightarrow> rat \<Rightarrow> rat \<Rightarrow> rat \<Rightarrow> rat \<Rightarrow> cell" where
  "draw_cell st startX startY x y =
     \<lparr> index_x = \<lfloor>js_div (js_sub x startX) (squareSize st)\<rfloor>,
       index_y = \<lfloor>js_div (js_sub y startY) (squareSize st)\<rfloor>,
       squareX = js_sub x (js_rem (gridOffset_x st) (squareSize st)),
       squareY = js_sub y (js_rem (gridOffset_y st) (squareSize st)),
       side = squareSize st,
       filled = (case hoveredSquare st of
                   None \<Rightarrow> False
                 | Some (hx, hy) \<Rightarrow>
                     \<lfloor>js_div (js_sub x startX) (squareSize st)\<rfloor> = hx \<and>
                     \<lfloor>js_div (js_sub y startY) (squareSize st)\<rfloor> = hy) \<rparr>"

text \<open>The inner loop over \<open>y\<close> for one value of \<open>x\<close>.\<close>

definition draw_column :: "squares \<Rightarrow> rat \<Rightarrow> rat \<Rightarrow> rat \<Rightarrow> cell list option" where
  "draw_column st startX startY x =
     map_option (map (draw_cell st startX startY x))
       (for_range startY (js_add (canvas_height st) (squareSize st)) (squareSize st))"

text \<open>The body of the outer loop, run for the successive values of \<open>x\<close>.\<close>

fun draw_columns :: "squares \<Rightarrow> rat \<Rightarrow> rat \<Rightarrow> rat list \<Rightarrow> cell list option" where
  "draw_columns st startX startY [] = Some []"
| "draw_columns st startX startY (x # xs) =
     (case draw_column st startX startY x of
        None \<Rightarrow> None
      | Some col \<Rightarrow> map_option ((@) col) (draw_columns st startX startY xs))"

text \<open>
  \<open>drawGrid\<close> returns the squares in drawing order, or \<open>None\<close> when one of its loops does
  not end.  Clearing the surface and the radial gradient overlay leave the state and the
  squares as they are and are not modelled.  The outer loop's values are computed first:
  they do not depend on the inner loop, and when the outer loop does not end, neither
  does \<open>drawGrid\<close>, whatever the inner one does.
\<close>

definition drawGrid :: "squares \<Rightarrow> cell list option" where
  "drawGrid st =
     (let startX = js_mul (of_int \<lfloor>js_div (gridOffset_x st) (squareSize st)\<rfloor>) (squareSize st);
          startY = js_mul (of_int \<lfloor>js_div (gridOffset_y st) (squareSize st)\<rfloor>) (squareSize st)
      in case for_range startX (js_add (canvas_width st) (squareSize st)) (squareSize st) of
           None \<Rightarrow> None
         | Some xs \<Rightarrow> draw_columns st startX startY xs)"

subsection \<open>The per-frame update\<close>

text \<open>The \<open>switch\<close> of \<open>updateAnimation\<close>, for a given value of the local constant
  \<open>effectiveSpeed\<close>; a direction that matches no case leaves the offset as it is.  The
  sum \<open>offset - effectiveSpeed + squareSize\<close> is two operations, from left to right.\<close>

definition moveOffset :: "rat \<Rightarrow> squares \<Rightarrow> squares" where
  "moveOffset effectiveSpeed st =
     (if direction st = ''right'' then
        st\<lparr> gridOffset_x :=
              js_rem (js_add (js_sub (gridOffset_x st) effectiveSpeed) (squareSize st))
                (squareSize st) \<rparr>
      else if direction st = ''left'' then
        st\<lparr> gridOffset_x :=
              js_rem (js_add (js_add (gridOffset_x st) effectiveSpeed) (squareSize st))
                (squareSize st) \<rparr>
      else if direction st = ''up'' then
        st\<lparr> gridOffset_y :=
              js_rem (js_add (js_add (gridOffset_y st) effectiveSpeed) (squareSize st))
                (squareSize st) \<rparr>
      else if direction st = ''down'' then
        st\<lparr> gridOffset_y :=
              js_rem (js_add (js_sub (gridOffset_y st) effectiveSpeed) (squareSize st))
                (squareSize st) \<rparr>
      else if direction st = ''diagonal'' then
        st\<lparr> gridOffset_x :=
              js_rem (js_add (js_sub (gridOffset_x st) effectiveSpeed) (squareSize st))
                (squareSize st),
            gridOffset_y :=
              js_rem (js_add (js_sub (gridOffset_y st) effectiveSpeed) (squareSize st))
                (squareSize st) \<rparr>
      else st)"

text \<open>The offset update of \<open>updateAnimation\<close>: the configured speed, but at least 0.1.\<close>

definition advanceOffset :: "squares \<Rightarrow> squares" where
  "advanceOffset st = moveOffset (max (speed st) tenth) st"

text \<open>One frame: the offset is advanced and the grid drawn.  The frame returns the new
  state and the squares drawn, or \<open>None\<close> when drawing does not end.  Scheduling of the
  next frame is the environment's; \<open>frames n\<close> runs \<open>n\<close> frames in a row.\<close>

definition updateAnimation :: "squares \<Rightarrow> (squares \<times> cell list) option" where
  "updateAnimation st =
     (let st' = advanceOffset st
      in map_option (\<lambda>cells. (st', cells)) (drawGrid st'))"

fun frames :: "nat \<Rightarrow> squares \<Rightarrow> squares option" where
  "frames 0 st = Some st"
| "frames (Suc n) st =
     (case updateAnimation st of
        None \<Rightarrow> None
      | Some (st', cells) \<Rightarrow> frames n st')"

text \<open>The constructor: configuration with defaults, \<open>setupCanvas\<close>, and the first frame
  run by \<open>startAnimation\<close>.\<close>

definition constructor :: "rat option \<Rightarrow> rect \<Rightarrow> options \<Rightarrow> (squares \<times> cell list) option" where
  "constructor devicePixelRatio r opts =
     updateAnimation (setupCanvas devicePixelRatio r (new_squares opts))"

section \<open>The service worker\<close>

text \<open>
  The worker runs on the browser's cache storage and network.  Both are modelled as
  values: a cache is the list of its entries in insertion order, keyed by request URL
  (the worker only ever stores and looks up \<open>GET\<close> requests); the cache storage is the
  list of the named caches in creation order; the network is a function from the URL of a
  \<open>GET\<close> request to the result of fetching it.  The operations of the Cache interface
  follow the Service Workers specification: \<open>put\<close> replaces an entry with the same key,
  \<open>caches.match\<close> searches the caches in creation order, \<open>caches.open\<close> creates a
  missing cache, and \<open>addAll\<close> stores either every response or none.  Each promise is
  taken at its settled value, a write being complete before the next event is handled.
\<close>

datatype response_type = Basic | Cors | Default | Error | Opaque | OpaqueRedirect

record response =
  status :: nat
  rtype :: response_type
  body :: string

text \<open>An intercepted request: its method (\<open>event.request.method\<close>), its URL, and the
  \<open>origin\<close> and \<open>hostname\<close> that \<open>new URL(event.request.url)\<close> yields for it.\<close>

record request =
  request_method :: string
  url :: string
  url_origin :: string
  url_hostname :: string

type_synonym cache = "(string \<times> response) list"

type_synonym cache_storage = "(string \<times> cache) list"

text \<open>A fetch promise rejects, or resolves with a response; the worker also tests the
  resolved value for being falsy, which is \<open>Resolved None\<close>.\<close>

datatype fetch_result = Rejected | Resolved "response option"

type_synonym network = "string \<Rightarrow> fetch_result"

definition CACHE_NAME :: string where
  "CACHE_NAME = ''habibibloxberg-v1''"

definition urlsToCache :: "string list" where
  "urlsToCache =
     [''/'',
      ''/index-improved.html'',
      ''/style-improved.css'',
      ''/script-improved.js'',
      ''/spiral-animation.js'',
      ''https://fonts.googleapis.com/css2?family=Inter:wght@400;500;600;700;800&family=JetBrains+Mono:wght@400;500&display=swap'']"

subsection \<open>Cache and cache storage\<close>

definition cache_match :: "cache \<Rightarrow> string \<Rightarrow> response option" where
  "cache_match c key = map_of c key"

definition cache_put :: "cache \<Rightarrow> string \<Rightarrow> response \<Rightarrow> cache" where
  "cache_put c key r = filter (\<lambda>e. fst e \<noteq> key) c @ [(key, r)]"

definition caches_keys :: "cache_storage \<Rightarrow> string list" where
  "caches_keys cs = map fst cs"

fun caches_match :: "cache_storage \<Rightarrow> string \<Rightarrow> response option" where
  "caches_match [] key = None"
| "caches_match ((name, c) # cs) key =
     (case cache_match c key of
        Some r \<Rightarrow> Some r
      | None \<Rightarrow> caches_match cs key)"

definition caches_open :: "cache_storage \<Rightarrow> string \<Rightarrow> cache_storage" where
  "caches_open cs name = (if name \<in> set (caches_keys cs) then cs else cs @ [(name, [])])"

definition caches_delete :: "cache_storage \<Rightarrow> string \<Rightarrow> cache_storage" where
  "caches_delete cs name = filter (\<lambda>e. fst e \<noteq> name) cs"

text \<open>The entries of the cache with a given name (none when there is no such cache), and
  the storage with that cache's entries replaced.\<close>

definition generation :: "cache_storage \<Rightarrow> string \<Rightarrow> cache" where
  "generation cs name = (case map_of cs name of None \<Rightarrow> [] | Some c \<Rightarrow> c)"

definition caches_update :: "cache_storage \<Rightarrow> string \<Rightarrow> cache \<Rightarrow> cache_storage" where
  "caches_update cs name c = map (\<lambda>e. if fst e = name then (name, c) else e) cs"

text \<open>\<open>String.prototype.includes\<close>: the argument occurs as a contiguous substring.\<close>

fun str_includes :: "string \<Rightarrow> string \<Rightarrow> bool" where
  "str_includes [] sub = (sub = [])"
| "str_includes (x # xs) sub = (prefix sub (x # xs) \<or> str_includes xs sub)"

fun indexOf :: "'a list \<Rightarrow> 'a \<Rightarrow> int" where
  "indexOf [] v = -1"
| "indexOf (x # xs) v =
     (if x = v then 0 else (let i = indexOf xs v in if i = -1 then -1 else i + 1))"

subsection \<open>Install\<close>

text \<open>
  \<open>cache.addAll\<close> fetches every URL and rejects, storing nothing, when a fetch rejects or
  a response is a network error, has a status outside 200 to 299, or has status 206.
  Otherwise it stores all the responses.
\<close>

definition addAll_response :: "network \<Rightarrow> string \<Rightarrow> response option" where
  "addAll_response net u =
     (case net u of
        Rejected \<Rightarrow> None
      | Resolved None \<Rightarrow> None
      | Resolved (Some r) \<Rightarrow>
          if rtype r = Error \<or> status r < 200 \<or> 299 < status r \<or> status r = 206
          then None else Some r)"

fun fetch_all :: "network \<Rightarrow> string list \<Rightarrow> (string \<times> response) list option" where
  "fetch_all net [] = Some []"
| "fetch_all net (u # us) =
     (case addAll_response net u of
        None \<Rightarrow> None
      | Some r \<Rightarrow> map_option ((#) (u, r)) (fetch_all net us))"

definition cache_addAll :: "network \<Rightarrow> cache \<Rightarrow> string list \<Rightarrow> cache option" where
  "cache_addAll net c us =
     map_option (\<lambda>rs. fold (\<lambda>e c'. cache_put c' (fst e) (snd e)) rs c) (fetch_all net us)"

datatype install_result = Installed | InstallFailed

text \<open>The install handler: the promise given to \<open>event.waitUntil\<close> opens the cache and
  adds the manifest; the install fails when that promise rejects.\<close>

definition on_install :: "network \<Rightarrow> cache_storage \<Rightarrow> install_result \<times> cache_storage" where
  "on_install net cs =
     (let cs' = caches_open cs CACHE_NAME
      in case cache_addAll net (generation cs' CACHE_NAME) urlsToCache of
           None \<Rightarrow> (InstallFailed, cs')
         | Some c \<Rightarrow> (Installed, caches_update cs' CACHE_NAME c))"

subsection \<open>Activate\<close>

text \<open>The activate handler for a worker whose cache name is \<open>current\<close>: every cache name
  that is not in the white list is deleted.\<close>

definition activate_for :: "string \<Rightarrow> cache_storage \<Rightarrow> cache_storage" where
  "activate_for current cs =
     (let cacheWhitelist = [current]
      in fold (\<lambda>cacheName cs'.
                 if indexOf cacheWhitelist cacheName = -1
                 then caches_delete cs' cacheName else cs')
           (caches_keys cs) cs)"

definition on_activate :: "cache_storage \<Rightarrow> cache_storage" where
  "on_activate cs = activate_for CACHE_NAME cs"

text \<open>The runtime's life cycle for a new version of the worker: it is installed, and
  activated only when the install succeeded; a worker whose install failed is discarded
  and the caches stay as the failed install left them.\<close>

datatype worker_state = Activated | Redundant

definition deploy :: "network \<Rightarrow> cache_storage \<Rightarrow> worker_state \<times> cache_storage" where
  "deploy net cs =
     (case on_install net cs of
        (InstallFailed, cs') \<Rightarrow> (Redundant, cs')
      | (Installed, cs') \<Rightarrow> (Activated, on_activate cs'))"

subsection \<open>Fetch\<close>

definition isAllowedOrigin :: "string \<Rightarrow> request \<Rightarrow> bool" where
  "isAllowedOrigin self_origin req =
     (url_origin req = self_origin \<or>
      str_includes (url_hostname req) ''googleapis.com'' \<or>
      str_includes (url_hostname req) ''gstatic.com'' \<or>
      str_includes (url_hostname req) ''fontawesome.com'')"

text \<open>What the handler does with the event: it returns without calling
  \<open>respondWith\<close>, leaving the request to the browser, or it responds with a promise that
  resolves with a value or rejects.\<close>

datatype outcome = NotIntercepted | Responded "response option" | RespondedRejected

record handled =
  outcome :: outcome
  store :: cache_storage
  network_fetches :: nat

definition on_fetch :: "string \<Rightarrow> network \<Rightarrow> cache_storage \<Rightarrow> request \<Rightarrow> handled" where
  "on_fetch self_origin net cs req =
     (if request_method req \<noteq> ''GET'' then
        \<lparr> outcome = NotIntercepted, store = cs, network_fetches = 0 \<rparr>
      else if \<not> isAllowedOrigin self_origin req then
        \<lparr> outcome = NotIntercepted, store = cs, network_fetches = 0 \<rparr>
      else
        case caches_match cs (url req) of
          Some response \<Rightarrow>
            \<lparr> outcome = Responded (Some response), store = cs, network_fetches = 0 \<rparr>
        | None \<Rightarrow>
            (case net (url req) of
               Rejected \<Rightarrow>
                 \<lparr> outcome = RespondedRejected, store = cs, network_fetches = 1 \<rparr>
             | Resolved None \<Rightarrow>
                 \<lparr> outcome = Responded None, store = cs, network_fetches = 1 \<rparr>
             | Resolved (Some response) \<Rightarrow>
                 if status response \<noteq> 200 \<or> rtype response = Opaque then
                   \<lparr> outcome = Responded (Some response), store = cs, network_fetches = 1 \<rparr>
                 else
                   (let cs' = caches_open cs CACHE_NAME
                    in \<lparr> outcome = Responded (Some response),
                         store = caches_update cs' CACHE_NAME
                                   (cache_put (generation cs' CACHE_NAME) (url req) response),
                         network_fetches = 1 \<rparr>)))"

text \<open>The same request handled twice in a row, the second time on the store the first
  left: the two outcomes and the number of network fetches the handler made in all.\<close>

definition fetch_twice :: "string \<Rightarrow> network \<Rightarrow> cache_storage \<Rightarrow> request \<Rightarrow> outcome \<times> outcome \<times> nat" where
  "fetch_twice self_origin net cs req =
     (let h1 = on_fetch self_origin net cs req;
          h2 = on_fetch self_origin net (store h1) req
      in (outcome h1, outcome h2, network_fetches h1 + network_fetches h2))"

text \<open>A status the Fetch standard calls ok.\<close>

definition ok_status :: "nat \<Rightarrow> bool" where
  "ok_status s = (200 \<le> s \<and> s \<le> 299)"

section \<open>Notions used to state the properties\<close>

text \<open>
  The invariant of the grid state: both components of the offset lie in the half-open
  range from 0 to the square size.
\<close>

definition offset_in_range :: "squares \<Rightarrow> bool" where
  "offset_in_range st =
     (0 \<le> gridOffset_x st \<and> gridOffset_x st < squareSize st \<and>
      0 \<le> gridOffset_y st \<and> gridOffset_y st < squareSize st)"




text \<open>
  An offset update with effective speed \<open>e\<close> rounds nothing: the two sums it computes for
  the component it moves are exact.
\<close>

definition exact_minus :: "rat \<Rightarrow> rat \<Rightarrow> rat \<Rightarrow> bool" where
  "exact_minus v e m = (js_sub v e = v - e \<and> js_add (v - e) m = v - e + m)"

definition exact_plus :: "rat \<Rightarrow> rat \<Rightarrow> rat \<Rightarrow> bool" where
  "exact_plus v e m = (js_add v e = v + e \<and> js_add (v + e) m = v + e + m)"

definition exact_update :: "rat \<Rightarrow> squares \<Rightarrow> bool" where
  "exact_update e st =
     (if direction st = ''right'' then exact_minus (gridOffset_x st) e (squareSize st)
      else if direction st = ''left'' then exact_plus (gridOffset_x st) e (squareSize st)
      else if direction st = ''up'' then exact_plus (gridOffset_y st) e (squareSize st)
      else if direction st = ''down'' then exact_minus (gridOffset_y st) e (squareSize st)
      else if direction st = ''diagonal'' then
        exact_minus (gridOffset_x st) e (squareSize st) \<and>
        exact_minus (gridOffset_y st) e (squareSize st)
      else True)"

text \<open>
  The pointer event at the pixel centre of a drawn square, in client coordinates: the
  canvas is displayed at its own pixel size, so a position on the canvas is a client
  position relative to the corner of the bounding rectangle.  The coordinates of an
  event are numbers, here the ones nearest to the centre.
\<close>

definition cell_centre :: "rect \<Rightarrow> cell \<Rightarrow> mouse_event" where
  "cell_centre r c =
     \<lparr> clientX = fl (rect_left r + squareX c + side c / 2),
       clientY = fl (rect_top r + squareY c + side c / 2) \<rparr>"

text \<open>A state whose square size and offset are integers below \<open>2^51\<close>.\<close>

definition integer_state :: "squares \<Rightarrow> bool" where
  "integer_state st =
     (\<exists>m x y :: int. 0 < m \<and> m < 2 ^ 51 \<and> \<bar>x\<bar> < 2 ^ 51 \<and> \<bar>y\<bar> < 2 ^ 51 \<and>
        squareSize st = of_int m \<and> gridOffset_x st = of_int x \<and> gridOffset_y st = of_int y)"

section \<open>Concrete inputs\<close>

text \<open>
  Canvases of 30 by 20, of 40 by 10 and of 100 by 50 pixels at the corner of the
  viewport, and
  configurations: the defaults; a speed above the square size; speeds of zero, of 0.05 and
  of -3; squares of 10.7 pixels moving up; squares of 10.1 pixels moving left.
\<close>

definition small_rect :: rect where
  "small_rect = \<lparr> rect_left = 0, rect_top = 0, rect_width = 30, rect_height = 20 \<rparr>"

definition wide_rect :: rect where
  "wide_rect = \<lparr> rect_left = 0, rect_top = 0, rect_width = 40, rect_height = 10 \<rparr>"

definition default_options :: options where
  "default_options =
     \<lparr> opt_direction = None, opt_speed = None, opt_borderColor = None,
       opt_squareSize = None, opt_hoverFillColor = None \<rparr>"

definition fast_options :: options where
  "fast_options = default_options\<lparr> opt_direction := Some ''right'', opt_speed := Some 50 \<rparr>"

definition fast_left_options :: options where
  "fast_left_options = default_options\<lparr> opt_direction := Some ''left'', opt_speed := Some 50 \<rparr>"




definition fractional_options :: options where
  "fractional_options =
     default_options\<lparr> opt_direction := Some ''up'', opt_squareSize := Some (fl (107 / 10)) \<rparr>"


definition big_rect :: rect where
  "big_rect = \<lparr> rect_left = 0, rect_top = 0, rect_width = 100, rect_height = 50 \<rparr>"

definition fast_squares :: squares where
  "fast_squares = setupCanvas None small_rect (new_squares fast_options)"

definition default_squares :: squares where
  "default_squares = setupCanvas None small_rect (new_squares default_options)"


text \<open>
  Cache storages, requests, responses and networks for the service worker.
\<close>

definition three_generations :: cache_storage where
  "three_generations =
     [(''v1'', [(''/'', \<lparr> status = 200, rtype = Basic, body = ''one'' \<rparr>)]),
      (''v2'', []),
      (''v3'', [(''/'', \<lparr> status = 200, rtype = Basic, body = ''three'' \<rparr>)])]"

definition site_origin :: string where
  "site_origin = ''https://habibibloxberg.example''"

definition image_request :: request where
  "image_request =
     \<lparr> request_method = ''GET'', url = ''https://habibibloxberg.example/logo.png'',
       url_origin = ''https://habibibloxberg.example'',
       url_hostname = ''habibibloxberg.example'' \<rparr>"

definition post_request :: request where
  "post_request =
     \<lparr> request_method = ''POST'', url = ''https://habibibloxberg.example/contact'',
       url_origin = ''https://habibibloxberg.example'',
       url_hostname = ''habibibloxberg.example'' \<rparr>"

definition foreign_request :: request where
  "foreign_request =
     \<lparr> request_method = ''GET'', url = ''https://cdn.example.net/lib.js'',
       url_origin = ''https://cdn.example.net'',
       url_hostname = ''cdn.example.net'' \<rparr>"

definition image_response :: response where
  "image_response = \<lparr> status = 200, rtype = Basic, body = ''png'' \<rparr>"

definition missing_response :: response where
  "missing_response = \<lparr> status = 404, rtype = Basic, body = ''not found'' \<rparr>"

definition no_content_response :: response where
  "no_content_response = \<lparr> status = 204, rtype = Basic, body = [] \<rparr>"

definition stub_network :: "response \<Rightarrow> network" where
  "stub_network r = (\<lambda>u. Resolved (Some r))"

definition fresh_store :: cache_storage where
  "fresh_store = [(CACHE_NAME, [])]"

definition warm_store :: cache_storage where
  "warm_store = [(CACHE_NAME, [(''https://habibibloxberg.example/logo.png'', image_response)])]"

definition old_store :: cache_storage where
  "old_store = [(''habibibloxberg-v0'', [(''/'', \<lparr> status = 200, rtype = Basic, body = ''old'' \<rparr>)])]"

definition flaky_network :: network where
  "flaky_network =
     (\<lambda>u. if u = ''/spiral-animation.js'' then Rejected
          else Resolved (Some \<lparr> status = 200, rtype = Basic, body = u \<rparr>))"

section \<open>Properties of the numbers\<close>

text \<open>
  The rounding reproduces known binary64 values: the number that \<open>0.1\<close> denotes, the
  sum of \<open>0.1\<close> and \<open>0.2\<close>, which is not the number that \<open>0.3\<close> denotes, and the first
  integer that is not a binary64 value.
\<close>

lemma binary64_values:
  "tenth = 3602879701896397 / 36028797018963968"
  "js_add tenth (fl (2 / 10)) \<noteq> fl (3 / 10)"
  "fl (9007199254740993) = 9007199254740992"
  "fl 40 = 40"
  by code_simp+

lemma tenth_pos: "0 < tenth"
  by code_simp

subsection \<open>Rounding keeps the sign, and integers below \<open>2^53\<close> are exact\<close>

lemma round_even_nonneg:
  assumes "0 \<le> n" "0 < d"
  shows "0 \<le> round_even n d"
proof -
  have "0 \<le> n div d" using assms by (simp add: pos_imp_zdiv_nonneg_iff)
  then show ?thesis by (simp add: round_even_def Let_def)
qed

lemma fl_nonneg:
  assumes "0 \<le> x"
  shows "0 \<le> fl x"
proof -
  obtain p q where pq: "quotient_of x = (p, q)" by (cases "quotient_of x")
  have q: "0 < q" using pq by (rule quotient_of_denom_pos)
  have x: "x = of_int p / of_int q" using pq by (rule quotient_of_div)
  have p: "0 \<le> p"
  proof (rule ccontr)
    assume "\<not> 0 \<le> p"
    then have "of_int p / (of_int q :: rat) < 0" using q by (simp add: divide_neg_pos)
    with x assms show False by simp
  qed
  have m: "0 \<le> (if 0 \<le> e then round_even \<bar>p\<bar> (q * 2 ^ nat e)
                   else round_even (\<bar>p\<bar> * 2 ^ nat (- e)) q)" for e
    using q by (auto intro!: round_even_nonneg)
  have s: "0 \<le> sgn p" using p by (simp add: sgn_if)
  show ?thesis
    unfolding fl_def pq prod.case Let_def
    using m s by (auto intro!: mult_nonneg_nonneg simp: zero_le_power_int)
qed

lemma js_add_nonneg: "0 \<le> a \<Longrightarrow> 0 \<le> b \<Longrightarrow> 0 \<le> js_add a b"
  unfolding js_add_def by (rule fl_nonneg) simp

lemma round_even_one: "round_even n 1 = n"
  by (simp add: round_even_def)

lemma binade_int:
  assumes "0 < n"
  shows "binade n 1 = bitlen n - 1"
proof -
  have b1: "bitlen 1 = 1" by (simp add: bitlen_alt_def)
  have k: "0 \<le> bitlen n - 1" using assms by (simp add: bitlen_alt_def)
  have "2 ^ nat (bitlen n - 1) \<le> n" using bitlen_bounds [OF assms] by simp
  then show ?thesis using k by (simp add: binade_def b1 Let_def)
qed

lemma fl_int:
  assumes "\<bar>n\<bar> < 2 ^ 53"
  shows "fl (of_int n) = of_int n"
proof (cases "n = 0")
  case True
  then show ?thesis by (simp add: fl_def)
next
  case False
  then have pos: "0 < \<bar>n\<bar>" by simp
  let ?e = "bitlen \<bar>n\<bar> - 1 - 52"
  have "bitlen \<bar>n\<bar> \<le> 53"
    using assms by (simp add: bitlen_le_iff_power)
  then have e0: "?e \<le> 0" by simp
  have "1 \<le> bitlen \<bar>n\<bar>" using pos by (simp add: bitlen_alt_def)
  then have e1: "- 1074 \<le> ?e" by simp
  have mx: "max ?e (- 1074) = ?e" using e1 by simp
  have val: "of_int (sgn n * (\<bar>n\<bar> * 2 ^ nat (- ?e))) * 2 powi ?e = (of_int n :: rat)"
  proof -
    have "(2::rat) powi ?e = inverse (2 ^ nat (- ?e))"
      using e0 by (simp add: power_int_def power_one_over [symmetric] inverse_eq_divide)
    moreover have "sgn n * \<bar>n\<bar> = n" by (simp add: sgn_if)
    ultimately show ?thesis
      by (simp add: mult.assoc [symmetric])
  qed
  show ?thesis
  proof (cases "?e = 0")
    case True
    have "fl (of_int n) = of_int (sgn n * round_even \<bar>n\<bar> 1) * 2 powi 0"
      using False True by (simp add: fl_def binade_int [OF pos] Let_def)
    then show ?thesis by (simp add: round_even_one sgn_if)
  next
    case neg: False
    with e0 have lt: "?e < 0" by simp
    have "fl (of_int n) = of_int (sgn n * round_even (\<bar>n\<bar> * 2 ^ nat (- ?e)) 1) * 2 powi ?e"
      using False lt mx by (simp add: fl_def binade_int [OF pos] Let_def)
    then show ?thesis by (simp only: round_even_one val)
  qed
qed

lemma js_add_int:
  assumes "\<bar>a + b\<bar> < 2 ^ 53"
  shows "js_add (of_int a) (of_int b) = of_int a + of_int b"
  using fl_int [OF assms] by (simp add: js_add_def)

lemma js_sub_int:
  assumes "\<bar>a - b\<bar> < 2 ^ 53"
  shows "js_sub (of_int a) (of_int b) = of_int a - of_int b"
  using fl_int [OF assms] by (simp add: js_sub_def)

subsection \<open>The remainder operator\<close>

lemma js_rem_nonneg_range:
  assumes "0 < b" "0 \<le> a"
  shows "0 \<le> js_rem a b \<and> js_rem a b < b"
proof -
  have q: "0 \<le> a / b" using assms by simp
  have tr: "js_trunc (a / b) = \<lfloor>a / b\<rfloor>" using q by (simp add: js_trunc_def)
  have 1: "of_int \<lfloor>a / b\<rfloor> \<le> a / b" by simp
  have 2: "a / b < of_int \<lfloor>a / b\<rfloor> + 1" by linarith
  have ab: "b * (a / b) = a" using assms(1) by simp
  from 1 have "b * of_int \<lfloor>a / b\<rfloor> \<le> b * (a / b)" using assms(1)
    by (intro mult_left_mono) simp_all
  then have "b * of_int \<lfloor>a / b\<rfloor> \<le> a" by (simp only: ab)
  moreover from 2 have "b * (a / b) < b * (of_int \<lfloor>a / b\<rfloor> + 1)" using assms(1)
    by (intro mult_strict_left_mono) simp_all
  then have "a < b * (of_int \<lfloor>a / b\<rfloor> + 1)" by (simp only: ab)
  ultimately show ?thesis
    by (simp add: js_rem_def tr algebra_simps)
qed

lemma js_rem_abs_less:
  assumes "0 < b"
  shows "\<bar>js_rem a b\<bar> < b"
proof (cases "0 \<le> a")
  case True
  then show ?thesis using js_rem_nonneg_range [OF assms True] by simp
next
  case False
  then have neg: "a / b < 0" using assms by (simp add: field_simps)
  then have tr: "js_trunc (a / b) = \<lceil>a / b\<rceil>" by (simp add: js_trunc_def)
  have 1: "a / b \<le> of_int \<lceil>a / b\<rceil>" by simp
  have 2: "of_int \<lceil>a / b\<rceil> - 1 < a / b" by linarith
  have ab: "b * (a / b) = a" using assms by simp
  from 1 have "b * (a / b) \<le> b * of_int \<lceil>a / b\<rceil>" using assms
    by (intro mult_left_mono) simp_all
  then have "a \<le> b * of_int \<lceil>a / b\<rceil>" by (simp only: ab)
  moreover from 2 have "b * (of_int \<lceil>a / b\<rceil> - 1) < b * (a / b)" using assms
    by (intro mult_strict_left_mono) simp_all
  then have "b * (of_int \<lceil>a / b\<rceil> - 1) < a" by (simp only: ab)
  ultimately show ?thesis
    by (simp add: js_rem_def tr algebra_simps)
qed


lemma js_rem_int:
  assumes "0 < m"
  obtains r :: int where "js_rem (of_int a) (of_int m) = of_int r" and "\<bar>r\<bar> < m"
proof -
  let ?r = "a - m * js_trunc (of_int a / of_int m)"
  have eq: "js_rem (of_int a) (of_int m) = of_int ?r"
    by (simp add: js_rem_def)
  have "\<bar>js_rem (of_int a) (of_int m)\<bar> < (of_int m :: rat)"
    using assms by (intro js_rem_abs_less) simp
  then have "\<bar>(of_int ?r :: rat)\<bar> < of_int m"
    by (simp only: eq)
  then have "\<bar>?r\<bar> < m"
    by (simp only: of_int_abs [symmetric] of_int_less_iff)
  with eq that show thesis by blast
qed

section \<open>Properties of the grid renderer\<close>

subsection \<open>Fields that the offset update keeps\<close>

lemma moveOffset_config [simp]:
  "squareSize (moveOffset e st) = squareSize st"
  "speed (moveOffset e st) = speed st"
  "direction (moveOffset e st) = direction st"
  "canvas_width (moveOffset e st) = canvas_width st"
  "canvas_height (moveOffset e st) = canvas_height st"
  "hoveredSquare (moveOffset e st) = hoveredSquare st"
  by (simp_all add: moveOffset_def)

lemma advanceOffset_speed [simp]: "speed (advanceOffset st) = speed st"
  by (simp add: advanceOffset_def)

lemma setupCanvas_speed [simp]: "speed (setupCanvas dpr r st) = speed st"
  by (simp add: setupCanvas_def resizeCanvas_def Let_def)



subsection \<open>Claim C1: the offset and its range\<close>

text \<open>
  The cases \<open>left\<close> and \<open>up\<close> add the speed: every number in the sum is non-negative,
  so the remainder lies in the range from 0 to the square size, whatever the speed.
\<close>

lemma plus_update_in_range:
  assumes sq: "0 < m" and e: "0 \<le> e" and v: "0 \<le> v"
  shows "0 \<le> js_rem (js_add (js_add v e) m) m \<and> js_rem (js_add (js_add v e) m) m < m"
proof -
  have "0 \<le> js_add v e" using v e by (rule js_add_nonneg)
  moreover have "0 \<le> m" using sq by simp
  ultimately have "0 \<le> js_add (js_add v e) m" by (rule js_add_nonneg)
  with sq show ?thesis by (rule js_rem_nonneg_range)
qed

lemma left_up_keep_range:
  assumes dir: "direction st = ''left'' \<or> direction st = ''up''"
    and sq: "0 < squareSize st"
    and inv: "offset_in_range st"
  shows "offset_in_range (advanceOffset st)"
proof -
  let ?e = "max (speed st) tenth"
  have e: "0 \<le> ?e" using tenth_pos by simp
  have x: "0 \<le> gridOffset_x st" "gridOffset_x st < squareSize st"
    and y: "0 \<le> gridOffset_y st" "gridOffset_y st < squareSize st"
    using inv by (simp_all add: offset_in_range_def)
  from dir show ?thesis
  proof
    assume l: "direction st = ''left''"
    from plus_update_in_range [OF sq e x(1)] y l show ?thesis
      by (simp add: advanceOffset_def moveOffset_def offset_in_range_def)
  next
    assume u: "direction st = ''up''"
    from plus_update_in_range [OF sq e y(1)] x u show ?thesis
      by (simp add: advanceOffset_def moveOffset_def offset_in_range_def)
  qed
qed

text \<open>
  With direction \<open>left\<close>, speed 50 and squares of 40 pixels the first frame moves the
  offset from 0 to 10.
\<close>

lemma fast_left_offset_in_range:
  "map_option gridOffset_x (frames 1 (setupCanvas None small_rect (new_squares fast_left_options)))
     = Some 10 \<and>
   map_option offset_in_range
     (frames 1 (setupCanvas None small_rect (new_squares fast_left_options))) = Some True"
  by code_simp

text \<open>
  Claim C1 says that after every frame each component of the offset lies in the range
  from 0 to the square size, for every direction and positive speed.  The cases
  \<open>right\<close>, \<open>down\<close> and \<open>diagonal\<close> subtract the speed and add the square size once:
  with direction \<open>right\<close>, speed 50 and squares of 40 pixels, the first frame computes
  \<open>(0 - 50 + 40) % 40\<close>, the dividend is negative, the remainder keeps its sign, and the
  offset is \<open>-10\<close>, outside the range.
\<close>

theorem fast_offset_leaves_range:
  "direction fast_squares = ''right'' \<and> 0 < speed fast_squares \<and>
   speed fast_squares = 50 \<and> squareSize fast_squares = 40 \<and>
   offset_in_range fast_squares \<and>
   map_option gridOffset_x (frames 1 fast_squares) = Some (- 10) \<and>
   map_option offset_in_range (frames 1 fast_squares) = Some False"
  by code_simp

subsection \<open>Claim C8: two updates that add up to one square\<close>









text \<open>
  The condition of the amended claim holds in every state whose square size and offset
  are integers, for every integer \<open>s\<close> from 1 to the square size minus 1: sums of
  integers below \<open>2^53\<close> are exact, and an update of such a state gives such a state.
\<close>

lemma exact_minus_int:
  assumes "\<bar>v\<bar> < 2 ^ 51" "\<bar>e\<bar> < 2 ^ 51" "\<bar>m\<bar> < 2 ^ 51"
  shows "exact_minus (of_int v) (of_int e) (of_int m)"
proof -
  have 1: "\<bar>v - e\<bar> < 2 ^ 53" using assms by simp
  have 2: "\<bar>(v - e) + m\<bar> < 2 ^ 53" using assms by simp
  have "js_add (of_int v - of_int e) (of_int m) = of_int v - of_int e + of_int m"
    using js_add_int [OF 2] by simp
  with js_sub_int [OF 1] show ?thesis by (simp add: exact_minus_def)
qed

lemma exact_plus_int:
  assumes "\<bar>v\<bar> < 2 ^ 51" "\<bar>e\<bar> < 2 ^ 51" "\<bar>m\<bar> < 2 ^ 51"
  shows "exact_plus (of_int v) (of_int e) (of_int m)"
proof -
  have 1: "\<bar>v + e\<bar> < 2 ^ 53" using assms by simp
  have 2: "\<bar>(v + e) + m\<bar> < 2 ^ 53" using assms by simp
  have "js_add (of_int v + of_int e) (of_int m) = of_int v + of_int e + of_int m"
    using js_add_int [OF 2] by simp
  with js_add_int [OF 1] show ?thesis by (simp add: exact_plus_def)
qed

lemma integer_update_exact:
  assumes "integer_state st" and "\<bar>e\<bar> < 2 ^ 51"
  shows "exact_update (of_int e) st"
proof -
  from assms(1) obtain m x y :: int
    where "\<bar>m\<bar> < 2 ^ 51" "\<bar>x\<bar> < 2 ^ 51" "\<bar>y\<bar> < 2 ^ 51"
      and "squareSize st = of_int m" "gridOffset_x st = of_int x" "gridOffset_y st = of_int y"
    by (auto simp: integer_state_def)
  with assms(2) show ?thesis
    by (simp add: exact_update_def exact_minus_int exact_plus_int)
qed

lemma integer_update_state:
  assumes "integer_state st" and "\<bar>e\<bar> < 2 ^ 51"
  shows "integer_state (moveOffset (of_int e) st)"
proof -
  from assms(1) obtain m x y :: int
    where m: "0 < m" "m < 2 ^ 51" and x: "\<bar>x\<bar> < 2 ^ 51" and y: "\<bar>y\<bar> < 2 ^ 51"
      and sq: "squareSize st = of_int m"
      and ox: "gridOffset_x st = of_int x" and oy: "gridOffset_y st = of_int y"
    by (auto simp: integer_state_def)
  have am: "\<bar>m\<bar> < 2 ^ 51" using m by simp
  have new: "\<exists>r :: int. \<bar>r\<bar> < 2 ^ 51 \<and>
      js_rem (js_add (js_sub (of_int v) (of_int e)) (of_int m)) (of_int m) = of_int r"
    "\<exists>r :: int. \<bar>r\<bar> < 2 ^ 51 \<and>
      js_rem (js_add (js_add (of_int v) (of_int e)) (of_int m)) (of_int m) = of_int r"
    if v: "\<bar>v\<bar> < 2 ^ 51" for v
  proof -
    from exact_minus_int [OF v assms(2) am]
    have "js_add (js_sub (of_int v) (of_int e)) (of_int m) = (of_int (v - e + m) :: rat)"
      by (simp add: exact_minus_def)
    moreover obtain r :: int
      where "js_rem (of_int (v - e + m)) (of_int m) = of_int r" "\<bar>r\<bar> < m"
      by (rule js_rem_int [OF m(1)])
    ultimately show "\<exists>r :: int. \<bar>r\<bar> < 2 ^ 51 \<and>
      js_rem (js_add (js_sub (of_int v) (of_int e)) (of_int m)) (of_int m) = of_int r"
      using m(2) by (intro exI [of _ r]) simp
    from exact_plus_int [OF v assms(2) am]
    have "js_add (js_add (of_int v) (of_int e)) (of_int m) = (of_int (v + e + m) :: rat)"
      by (simp add: exact_plus_def)
    moreover obtain r :: int
      where "js_rem (of_int (v + e + m)) (of_int m) = of_int r" "\<bar>r\<bar> < m"
      by (rule js_rem_int [OF m(1)])
    ultimately show "\<exists>r :: int. \<bar>r\<bar> < 2 ^ 51 \<and>
      js_rem (js_add (js_add (of_int v) (of_int e)) (of_int m)) (of_int m) = of_int r"
      using m(2) by (intro exI [of _ r]) simp
  qed
  from new(1) [OF x] obtain xm :: int where xm: "\<bar>xm\<bar> < 2 ^ 51"
    "js_rem (js_add (js_sub (of_int x) (of_int e)) (of_int m)) (of_int m) = of_int xm" by blast
  from new(2) [OF x] obtain xp :: int where xp: "\<bar>xp\<bar> < 2 ^ 51"
    "js_rem (js_add (js_add (of_int x) (of_int e)) (of_int m)) (of_int m) = of_int xp" by blast
  from new(1) [OF y] obtain ym :: int where ym: "\<bar>ym\<bar> < 2 ^ 51"
    "js_rem (js_add (js_sub (of_int y) (of_int e)) (of_int m)) (of_int m) = of_int ym" by blast
  from new(2) [OF y] obtain yp :: int where yp: "\<bar>yp\<bar> < 2 ^ 51"
    "js_rem (js_add (js_add (of_int y) (of_int e)) (of_int m)) (of_int m) = of_int yp" by blast
  consider (r) "direction st = ''right''" | (l) "direction st = ''left''"
    | (u) "direction st = ''up''" | (d) "direction st = ''down''"
    | (g) "direction st = ''diagonal''"
    | (o) "direction st \<noteq> ''right''" "direction st \<noteq> ''left''" "direction st \<noteq> ''up''"
        "direction st \<noteq> ''down''" "direction st \<noteq> ''diagonal''"
    by blast
  then show ?thesis
  proof cases
    case r
    show ?thesis unfolding integer_state_def
      using m xm y
      by (intro exI [of _ m] exI [of _ xm] exI [of _ y])
         (simp add: moveOffset_def r sq ox oy)
  next
    case l
    show ?thesis unfolding integer_state_def
      using m xp y
      by (intro exI [of _ m] exI [of _ xp] exI [of _ y])
         (simp add: moveOffset_def l sq ox oy)
  next
    case u
    show ?thesis unfolding integer_state_def
      using m x yp
      by (intro exI [of _ m] exI [of _ x] exI [of _ yp])
         (simp add: moveOffset_def u sq ox oy)
  next
    case d
    show ?thesis unfolding integer_state_def
      using m x ym
      by (intro exI [of _ m] exI [of _ x] exI [of _ ym])
         (simp add: moveOffset_def d sq ox oy)
  next
    case g
    show ?thesis unfolding integer_state_def
      using m xm ym
      by (intro exI [of _ m] exI [of _ xm] exI [of _ ym])
         (simp add: moveOffset_def g sq ox oy)
  next
    case o
    then have "moveOffset (of_int e) st = st" by (simp add: moveOffset_def)
    with assms(1) show ?thesis by simp
  qed
qed

lemma integer_round_trip_exact:
  assumes st: "integer_state st" and sq: "squareSize st = of_int m"
    and s: "1 \<le> s" "s \<le> m - 1"
  shows "tenth \<le> of_int s \<and> tenth \<le> squareSize st - of_int s \<and>
         js_sub (squareSize st) (of_int s) = squareSize st - of_int s \<and>
         exact_update (of_int s) st \<and>
         exact_update (squareSize st - of_int s) (moveOffset (of_int s) st)"
proof -
  from st sq have m: "0 < m" "m < 2 ^ 51"
    by (auto simp: integer_state_def)
  have t1: "tenth \<le> 1" by code_simp
  have a: "tenth \<le> (of_int s :: rat)"
  proof -
    have "(1 :: rat) \<le> of_int s" using s(1) by simp
    with t1 show ?thesis by linarith
  qed
  have b: "tenth \<le> squareSize st - of_int s"
  proof -
    have "(1 :: rat) \<le> of_int (m - s)" using s(2) by simp
    with t1 show ?thesis by (simp add: sq)
  qed
  have se: "\<bar>s\<bar> < 2 ^ 51" using s m by simp
  have ms: "\<bar>m - s\<bar> < 2 ^ 51" using s m by simp
  have c: "js_sub (squareSize st) (of_int s) = squareSize st - of_int s"
    unfolding sq by (rule js_sub_int) (use s m in simp)
  have d: "exact_update (of_int s) st"
    by (rule integer_update_exact [OF st se])
  have "exact_update (of_int (m - s)) (moveOffset (of_int s) st)"
    by (rule integer_update_exact [OF integer_update_state [OF st se] ms])
  then have e: "exact_update (squareSize st - of_int s) (moveOffset (of_int s) st)"
    by (simp add: sq)
  from a b c d e show ?thesis by (intro conjI)
qed

subsection \<open>Claim C7: the hovered cell of a square's centre\<close>

text \<open>
  Claim C7 says that the pointer at the centre of a drawn square is mapped to the
  indices of that square.  \<open>drawGrid\<close> takes the index of a column from its position, the
  rounded sum of the positions before it, divided by the square size; with squares of
  10.7 pixels, direction \<open>up\<close> and a canvas of 40 by 10 pixels the fourth column is at
  32.099999999999994, the quotient is just below 3, and the column gets the index 2 of
  the third column: the indices of the five columns are 0, 1, 2, 2, 4.  The centre of
  the first square of the fourth column lies on the canvas, and \<open>handleMouseMove\<close> maps
  it to the cell (3, 0), which is the index of no square drawn: the next drawing fills no
  square.  The centre of the square to its left is mapped to (2, 0), and the next
  drawing fills both squares.
\<close>

theorem hover_misses_drawn_cell:
  "(case constructor None wide_rect fractional_options of
      None \<Rightarrow> False
    | Some (st, cells) \<Rightarrow>
        squareSize st = fl (107 / 10) \<and> gridOffset_x st = 0 \<and> gridOffset_y st = 1 \<and>
        map index_x cells = [0, 0, 1, 1, 2, 2, 2, 2, 4, 4] \<and>
        map index_y cells = [0, 1, 0, 1, 0, 1, 0, 1, 0, 1] \<and>
        index_x (cells ! 4) = 2 \<and> index_y (cells ! 4) = 0 \<and>
        index_x (cells ! 6) = 2 \<and> index_y (cells ! 6) = 0 \<and>
        squareX (cells ! 4) < squareX (cells ! 6) \<and>
        0 \<le> clientX (cell_centre wide_rect (cells ! 6)) \<and>
        clientX (cell_centre wide_rect (cells ! 6)) < 40 \<and>
        0 \<le> clientY (cell_centre wide_rect (cells ! 6)) \<and>
        clientY (cell_centre wide_rect (cells ! 6)) < 10 \<and>
        hoveredSquare (handleMouseMove wide_rect (cell_centre wide_rect (cells ! 6)) st)
          = Some (3, 0) \<and>
        map_option (map filled)
          (drawGrid (handleMouseMove wide_rect (cell_centre wide_rect (cells ! 6)) st))
          = Some [False, False, False, False, False, False, False, False, False, False] \<and>
        hoveredSquare (handleMouseMove wide_rect (cell_centre wide_rect (cells ! 4)) st)
          = Some (2, 0) \<and>
        map_option (map filled)
          (drawGrid (handleMouseMove wide_rect (cell_centre wide_rect (cells ! 4)) st))
          = Some [False, False, False, False, True, False, True, False, False, False])"
  by code_simp

subsection \<open>Claim C9: resizing\<close>

text \<open>
  Claim C9.  The resize handler sets the canvas dimensions from the bounding rectangle,
  sets the column and row counts to the ceiling of the canvas dimension divided by the
  square size, plus one, and leaves the square size and both components of the offset
  unchanged.
\<close>

theorem resize_counts_keep_offset:
  "numSquaresX (handleResize r st)
     = \<lceil>js_div (canvas_width (handleResize r st)) (squareSize st)\<rceil> + 1 \<and>
   numSquaresY (handleResize r st)
     = \<lceil>js_div (canvas_height (handleResize r st)) (squareSize st)\<rceil> + 1 \<and>
   canvas_width (handleResize r st) = canvas_dim (rect_width r) \<and>
   canvas_height (handleResize r st) = canvas_dim (rect_height r) \<and>
   squareSize (handleResize r st) = squareSize st \<and>
   gridOffset_x (handleResize r st) = gridOffset_x st \<and>
   gridOffset_y (handleResize r st) = gridOffset_y st"
  by (simp add: handleResize_def resizeCanvas_def Let_def)

text \<open>
  An instance of C9: a canvas of 30 by 20 pixels with 2 by 2 squares of 40 pixels and
  offset (39, 0) is resized to 100 by 50 pixels; the counts become 4 and 3 and the
  offset stays.
\<close>

theorem resize_counts_keep_offset_witness:
  "numSquaresX (advanceOffset default_squares) = 2 \<and>
   numSquaresY (advanceOffset default_squares) = 2 \<and>
   gridOffset_x (advanceOffset default_squares) = 39 \<and>
   numSquaresX (handleResize big_rect (advanceOffset default_squares)) = 4 \<and>
   numSquaresY (handleResize big_rect (advanceOffset default_squares)) = 3 \<and>
   gridOffset_x (handleResize big_rect (advanceOffset default_squares)) = 39 \<and>
   gridOffset_y (handleResize big_rect (advanceOffset default_squares)) = 0"
proof -
  note t = resize_counts_keep_offset [of big_rect "advanceOffset default_squares"]
  have w: "canvas_dim (rect_width big_rect) = 100" by code_simp
  have h: "canvas_dim (rect_height big_rect) = 50" by code_simp
  have s: "squareSize (advanceOffset default_squares) = 40" by code_simp
  have ox: "gridOffset_x (advanceOffset default_squares) = 39" by code_simp
  have oy: "gridOffset_y (advanceOffset default_squares) = 0" by code_simp
  have n: "numSquaresX (advanceOffset default_squares) = 2 \<and>
      numSquaresY (advanceOffset default_squares) = 2" by code_simp
  have cx: "\<lceil>js_div 100 40\<rceil> + 1 = 4" by code_simp
  have cy: "\<lceil>js_div 50 40\<rceil> + 1 = 3" by code_simp
  from t have "numSquaresX (handleResize big_rect (advanceOffset default_squares)) = 4 \<and>
      numSquaresY (handleResize big_rect (advanceOffset default_squares)) = 3 \<and>
      gridOffset_x (handleResize big_rect (advanceOffset default_squares)) = 39 \<and>
      gridOffset_y (handleResize big_rect (advanceOffset default_squares)) = 0"
    by (simp only: w h s ox oy cx cy)
  with n ox show ?thesis by simp
qed

subsection \<open>Claim C10: the default speed and the floor\<close>




section \<open>Properties of the service worker\<close>

subsection \<open>Claim C4: activation\<close>

lemma activate_step:
  "(\<lambda>cacheName cs'. if indexOf [current] cacheName = -1
                         then caches_delete cs' cacheName else cs')
   = (\<lambda>cacheName cs'. if cacheName = current then cs' else caches_delete cs' cacheName)"
  by (auto simp: fun_eq_iff)

lemma activate_fold:
  "fold (\<lambda>cacheName cs'. if cacheName = current then cs' else caches_delete cs' cacheName) ns cs
   = filter (\<lambda>e. fst e = current \<or> fst e \<notin> set ns) cs"
proof (induction ns arbitrary: cs)
  case Nil
  show ?case by simp
next
  case (Cons n ns)
  show ?case
  proof (cases "n = current")
    case True
    have "filter (\<lambda>e. fst e = current \<or> fst e \<notin> set ns) cs
        = filter (\<lambda>e. fst e = current \<or> fst e \<notin> set (n # ns)) cs"
      using True by (intro filter_cong) auto
    then show ?thesis
      using True by (simp add: Cons.IH)
  next
    case False
    have "filter (\<lambda>e. fst e = current \<or> fst e \<notin> set ns) (caches_delete cs n)
        = filter (\<lambda>e. fst e = current \<or> fst e \<notin> set (n # ns)) cs"
      unfolding caches_delete_def filter_filter
      using False by (intro filter_cong) auto
    then show ?thesis
      using False by (simp add: Cons.IH)
  qed
qed

lemma activate_for_filter:
  "activate_for current cs = filter (\<lambda>e. fst e = current) cs"
proof -
  have "activate_for current cs
      = filter (\<lambda>e. fst e = current \<or> fst e \<notin> set (caches_keys cs)) cs"
    unfolding activate_for_def Let_def activate_step by (rule activate_fold)
  also have "\<dots> = filter (\<lambda>e. fst e = current) cs"
    unfolding caches_keys_def by (intro filter_cong) auto
  finally show ?thesis .
qed

text \<open>
  Claim C4.  Activation keeps exactly the caches whose name is the current one, each
  with its entries, and deletes all the others; activating again changes nothing.  This
  holds for the worker's own cache name and for any other current name.
\<close>

theorem activate_keeps_only_current:
  "activate_for current cs = filter (\<lambda>e. fst e = current) cs \<and>
   caches_keys (activate_for current cs) = filter (\<lambda>n. n = current) (caches_keys cs) \<and>
   activate_for current (activate_for current cs) = activate_for current cs \<and>
   on_activate cs = filter (\<lambda>e. fst e = CACHE_NAME) cs \<and>
   on_activate (on_activate cs) = on_activate cs"
  by (simp add: on_activate_def activate_for_filter caches_keys_def filter_map comp_def)

text \<open>
  An instance of C4: from the caches \<open>v1\<close>, \<open>v2\<close>, \<open>v3\<close> with current name
  \<open>v3\<close>, only \<open>v3\<close> remains, with its entry.
\<close>

theorem activate_keeps_only_current_witness:
  "caches_keys three_generations = [''v1'', ''v2'', ''v3''] \<and>
   caches_keys (activate_for ''v3'' three_generations) = [''v3''] \<and>
   activate_for ''v3'' three_generations
     = [(''v3'', [(''/'', \<lparr> status = 200, rtype = Basic, body = ''three'' \<rparr>)])] \<and>
   activate_for ''v3'' (activate_for ''v3'' three_generations)
     = activate_for ''v3'' three_generations"
proof -
  have k: "caches_keys three_generations = [''v1'', ''v2'', ''v3'']" by code_simp
  have f: "filter (\<lambda>e. fst e = ''v3'') three_generations
      = [(''v3'', [(''/'', \<lparr> status = 200, rtype = Basic, body = ''three'' \<rparr>)])]"
    by code_simp
  have g: "filter (\<lambda>n. n = ''v3'') (caches_keys three_generations) = [''v3'']" by code_simp
  note t = activate_keeps_only_current [of "''v3''" three_generations]
  from t have 1: "activate_for ''v3'' three_generations
      = filter (\<lambda>e. fst e = ''v3'') three_generations" by (rule conjunct1)
  from t have 2: "caches_keys (activate_for ''v3'' three_generations)
      = filter (\<lambda>n. n = ''v3'') (caches_keys three_generations)"
    by (rule conjunct2 [THEN conjunct1])
  from t have 3: "activate_for ''v3'' (activate_for ''v3'' three_generations)
      = activate_for ''v3'' three_generations"
    by (rule conjunct2 [THEN conjunct2, THEN conjunct1])
  show ?thesis
    using k 1 2 3 by (simp only: f g) simp
qed

subsection \<open>Claim C5: requests the worker does not intercept\<close>

text \<open>
  Claim C5.  For a request whose method is not \<open>GET\<close>, or whose origin is not the
  worker's own and whose host name contains none of \<open>googleapis.com\<close>,
  \<open>gstatic.com\<close>, \<open>fontawesome.com\<close>, the fetch handler returns without responding,
  makes no network fetch and leaves the cache storage as it is.
\<close>

theorem bypass_leaves_store:
  assumes "request_method req \<noteq> ''GET'' \<or>
           \<not> (url_origin req = self_origin \<or>
              str_includes (url_hostname req) ''googleapis.com'' \<or>
              str_includes (url_hostname req) ''gstatic.com'' \<or>
              str_includes (url_hostname req) ''fontawesome.com'')"
  shows "on_fetch self_origin net cs req
           = \<lparr> outcome = NotIntercepted, store = cs, network_fetches = 0 \<rparr>"
  using assms unfolding on_fetch_def isAllowedOrigin_def by presburger

text \<open>
  Instances of C5: a \<open>POST\<close> to the site itself, and a \<open>GET\<close> to another host.
\<close>

theorem bypass_leaves_store_witness:
  "request_method post_request \<noteq> ''GET'' \<and>
   on_fetch site_origin (stub_network image_response) fresh_store post_request
     = \<lparr> outcome = NotIntercepted, store = fresh_store, network_fetches = 0 \<rparr> \<and>
   request_method foreign_request = ''GET'' \<and>
   \<not> (url_origin foreign_request = site_origin \<or>
      str_includes (url_hostname foreign_request) ''googleapis.com'' \<or>
      str_includes (url_hostname foreign_request) ''gstatic.com'' \<or>
      str_includes (url_hostname foreign_request) ''fontawesome.com'') \<and>
   on_fetch site_origin (stub_network image_response) fresh_store foreign_request
     = \<lparr> outcome = NotIntercepted, store = fresh_store, network_fetches = 0 \<rparr>"
proof -
  have p: "request_method post_request \<noteq> ''GET''" by code_simp
  have fg: "request_method foreign_request = ''GET''" by code_simp
  have f: "\<not> (url_origin foreign_request = site_origin \<or>
      str_includes (url_hostname foreign_request) ''googleapis.com'' \<or>
      str_includes (url_hostname foreign_request) ''gstatic.com'' \<or>
      str_includes (url_hostname foreign_request) ''fontawesome.com'')" by code_simp
  have 1: "on_fetch site_origin (stub_network image_response) fresh_store post_request
     = \<lparr> outcome = NotIntercepted, store = fresh_store, network_fetches = 0 \<rparr>"
    by (rule bypass_leaves_store [OF disjI1 [OF p]])
  have 2: "on_fetch site_origin (stub_network image_response) fresh_store foreign_request
     = \<lparr> outcome = NotIntercepted, store = fresh_store, network_fetches = 0 \<rparr>"
    by (rule bypass_leaves_store [OF disjI2 [OF f]])
  show ?thesis by (intro conjI p 1 fg f 2)
qed

subsection \<open>Lemmas on the cache storage\<close>

lemma cache_match_put:
  "cache_match (cache_put c key r) key' = (if key' = key then Some r else cache_match c key')"
proof -
  have "map_of (filter (\<lambda>e. fst e \<noteq> key) c) key = None"
    by (induction c) auto
  moreover have "key' \<noteq> key \<Longrightarrow> map_of (filter (\<lambda>e. fst e \<noteq> key) c) key' = map_of c key'"
    by (induction c) auto
  ultimately show ?thesis
    by (auto simp add: cache_match_def cache_put_def map_add_def split: option.splits)
qed

lemma generation_open:
  "generation (caches_open cs name) name' = generation cs name'"
proof (cases "name \<in> set (caches_keys cs)")
  case True
  then show ?thesis by (simp add: caches_open_def)
next
  case False
  then have "map_of cs name = None"
    by (simp add: caches_keys_def map_of_eq_None_iff)
  then show ?thesis
    using False by (simp add: caches_open_def generation_def map_add_def split: option.splits)
qed

lemma caches_match_open:
  "caches_match (caches_open cs name) key = caches_match cs key"
proof -
  have "caches_match (cs @ [(name, [])]) key = caches_match cs key"
    by (induction cs) (auto simp: cache_match_def split: option.splits)
  then show ?thesis by (simp add: caches_open_def)
qed

lemma open_has_name: "name \<in> set (caches_keys (caches_open cs name))"
  by (simp add: caches_open_def caches_keys_def)

lemma generation_update_same:
  assumes "name \<in> set (caches_keys cs)"
  shows "generation (caches_update cs name c) name = c"
  using assms
  by (induction cs) (auto simp: generation_def caches_update_def caches_keys_def)

lemma generation_update_other:
  assumes "name' \<noteq> name"
  shows "generation (caches_update cs name c) name' = generation cs name'"
  using assms
  by (induction cs) (auto simp: generation_def caches_update_def)

lemma caches_match_update:
  assumes "caches_match cs key = None" "name \<in> set (caches_keys cs)" "cache_match c key = Some r"
  shows "caches_match (caches_update cs name c) key = Some r"
  using assms
proof (induction cs)
  case Nil
  then show ?case by (simp add: caches_keys_def)
next
  case (Cons e cs)
  obtain n c0 where e: "e = (n, c0)" by (cases e)
  from Cons.prems(1) have head: "cache_match c0 key = None" and tail: "caches_match cs key = None"
    by (auto simp: e split: option.splits)
  show ?case
  proof (cases "n = name")
    case True
    then show ?thesis
      using Cons.prems(3) by (simp add: e caches_update_def)
  next
    case False
    with Cons.prems(2) have "name \<in> set (caches_keys cs)"
      by (simp add: e caches_keys_def)
    from Cons.IH [OF tail this Cons.prems(3)] show ?thesis
      using False head by (simp add: e caches_update_def)
  qed
qed

lemma caches_match_generation:
  assumes "cache_match (generation cs name) key = Some r"
  shows "caches_match cs key \<noteq> None"
  using assms
proof (induction cs)
  case Nil
  then show ?case by (simp add: generation_def cache_match_def)
next
  case (Cons e cs)
  obtain n c0 where e: "e = (n, c0)" by (cases e)
  show ?case
  proof (cases "cache_match c0 key")
    case (Some r')
    then show ?thesis by (simp add: e)
  next
    case None
    with Cons.prems have "n \<noteq> name"
      by (auto simp: e generation_def)
    with Cons.prems have "cache_match (generation cs name) key = Some r"
      by (simp add: e generation_def)
    from Cons.IH [OF this] show ?thesis
      using None by (simp add: e)
  qed
qed

lemma caches_match_first:
  assumes "cache_match (generation cs name) key = Some r"
    and "\<forall>e \<in> set (takeWhile (\<lambda>e. fst e \<noteq> name) cs). cache_match (snd e) key = None"
  shows "caches_match cs key = Some r"
  using assms
proof (induction cs)
  case Nil
  then show ?case by (simp add: generation_def cache_match_def)
next
  case (Cons e cs)
  obtain n c0 where e: "e = (n, c0)" by (cases e)
  show ?case
  proof (cases "n = name")
    case True
    with Cons.prems(1) show ?thesis by (simp add: e generation_def)
  next
    case False
    with Cons.prems(2) have head: "cache_match c0 key = None"
      and tl: "\<forall>e \<in> set (takeWhile (\<lambda>e. fst e \<noteq> name) cs). cache_match (snd e) key = None"
      by (simp_all add: e)
    from False Cons.prems(1) have "cache_match (generation cs name) key = Some r"
      by (simp add: e generation_def)
    from Cons.IH [OF this tl] show ?thesis
      using head by (simp add: e)
  qed
qed

lemma on_fetch_hit:
  assumes "request_method req = ''GET''" "isAllowedOrigin self_origin req"
    and "caches_match cs (url req) = Some r"
  shows "on_fetch self_origin net cs req
           = \<lparr> outcome = Responded (Some r), store = cs, network_fetches = 0 \<rparr>"
  using assms by (simp add: on_fetch_def)

lemma on_fetch_stored:
  assumes "request_method req = ''GET''" "isAllowedOrigin self_origin req"
    and "caches_match cs (url req) = None"
    and "net (url req) = Resolved (Some r)" "status r = 200" "rtype r \<noteq> Opaque"
  shows "on_fetch self_origin net cs req
           = \<lparr> outcome = Responded (Some r),
               store = caches_update (caches_open cs CACHE_NAME) CACHE_NAME
                         (cache_put (generation (caches_open cs CACHE_NAME) CACHE_NAME)
                            (url req) r),
               network_fetches = 1 \<rparr>"
  using assms by (simp add: on_fetch_def Let_def)

lemma on_fetch_not_stored:
  assumes "request_method req = ''GET''" "isAllowedOrigin self_origin req"
    and "caches_match cs (url req) = None"
    and "net (url req) = Resolved (Some r)" "status r \<noteq> 200 \<or> rtype r = Opaque"
  shows "on_fetch self_origin net cs req
           = \<lparr> outcome = Responded (Some r), store = cs, network_fetches = 1 \<rparr>"
  using assms by (auto simp add: on_fetch_def Let_def)

lemma stored_then_hit:
  assumes "caches_match cs key = None"
  shows "caches_match (caches_update (caches_open cs CACHE_NAME) CACHE_NAME
           (cache_put (generation (caches_open cs CACHE_NAME) CACHE_NAME) key r)) key = Some r"
proof (rule caches_match_update)
  show "caches_match (caches_open cs CACHE_NAME) key = None"
    using assms by (simp add: caches_match_open)
  show "CACHE_NAME \<in> set (caches_keys (caches_open cs CACHE_NAME))"
    by (rule open_has_name)
  show "cache_match (cache_put (generation (caches_open cs CACHE_NAME) CACHE_NAME) key r) key
      = Some r"
    by (simp add: cache_match_put)
qed

subsection \<open>Claim C2: a cache hit makes no network fetch\<close>

text \<open>
  Claim C2, as amended.  For a \<open>GET\<close> request to an allowed origin:
  when the caches hold a response for the request, the handler responds with it, makes
  no network fetch and leaves the storage as it is, so that handling the request twice
  makes no fetch at all; a response stored in the current cache is such a hit, and it
  is the response returned when no cache created earlier holds the request;
  and when no cache holds the request and the network answers with status 200 and a
  response that is not opaque, handling the request twice makes exactly one network
  fetch, the second response being the stored copy of the first.
\<close>

theorem repeated_get_one_fetch:
  assumes get: "request_method req = ''GET''" and allowed: "isAllowedOrigin self_origin req"
  shows "(\<forall>r. caches_match cs (url req) = Some r \<longrightarrow>
            on_fetch self_origin net cs req
              = \<lparr> outcome = Responded (Some r), store = cs, network_fetches = 0 \<rparr> \<and>
            fetch_twice self_origin net cs req
              = (Responded (Some r), Responded (Some r), 0)) \<and>
         (\<forall>r. cache_match (generation cs CACHE_NAME) (url req) = Some r \<longrightarrow>
            caches_match cs (url req) \<noteq> None \<and>
            ((\<forall>e \<in> set (takeWhile (\<lambda>e. fst e \<noteq> CACHE_NAME) cs).
                 cache_match (snd e) (url req) = None)
               \<longrightarrow> caches_match cs (url req) = Some r)) \<and>
         (\<forall>r. caches_match cs (url req) = None \<and> net (url req) = Resolved (Some r) \<and>
              status r = 200 \<and> rtype r \<noteq> Opaque \<longrightarrow>
            fetch_twice self_origin net cs req
              = (Responded (Some r), Responded (Some r), 1))"
proof (intro conjI allI impI)
  fix r
  assume hit: "caches_match cs (url req) = Some r"
  show h: "on_fetch self_origin net cs req
      = \<lparr> outcome = Responded (Some r), store = cs, network_fetches = 0 \<rparr>"
    by (rule on_fetch_hit [OF get allowed hit])
  show "fetch_twice self_origin net cs req = (Responded (Some r), Responded (Some r), 0)"
    by (simp add: fetch_twice_def Let_def h)
next
  fix r
  assume cur: "cache_match (generation cs CACHE_NAME) (url req) = Some r"
  show "caches_match cs (url req) \<noteq> None"
    by (rule caches_match_generation [OF cur])
  assume "\<forall>e \<in> set (takeWhile (\<lambda>e. fst e \<noteq> CACHE_NAME) cs). cache_match (snd e) (url req) = None"
  with cur show "caches_match cs (url req) = Some r"
    by (rule caches_match_first)
next
  fix r
  assume a: "caches_match cs (url req) = None \<and> net (url req) = Resolved (Some r) \<and>
              status r = 200 \<and> rtype r \<noteq> Opaque"
  let ?cs' = "caches_update (caches_open cs CACHE_NAME) CACHE_NAME
                (cache_put (generation (caches_open cs CACHE_NAME) CACHE_NAME) (url req) r)"
  from a have miss: "caches_match cs (url req) = None"
    and n: "net (url req) = Resolved (Some r)" and st: "status r = 200"
    and ty: "rtype r \<noteq> Opaque"
    by blast+
  have h1: "on_fetch self_origin net cs req
      = \<lparr> outcome = Responded (Some r), store = ?cs', network_fetches = 1 \<rparr>"
    by (rule on_fetch_stored [where net = net, OF get allowed miss n st ty])
  have "caches_match ?cs' (url req) = Some r"
    by (rule stored_then_hit [OF miss])
  from on_fetch_hit [OF get allowed this]
  have h2: "on_fetch self_origin net ?cs' req
      = \<lparr> outcome = Responded (Some r), store = ?cs', network_fetches = 0 \<rparr>" .
  show "fetch_twice self_origin net cs req = (Responded (Some r), Responded (Some r), 1)"
    by (simp add: fetch_twice_def Let_def h1 h2)
qed

text \<open>
  Instances of C2: a hit in a storage that holds the request, and the same request
  twice on an empty current cache with a network that answers with status 200.
\<close>

theorem repeated_get_one_fetch_witness:
  "request_method image_request = ''GET'' \<and> isAllowedOrigin site_origin image_request \<and>
   cache_match (generation warm_store CACHE_NAME) (url image_request) = Some image_response \<and>
   on_fetch site_origin (stub_network missing_response) warm_store image_request
     = \<lparr> outcome = Responded (Some image_response), store = warm_store,
         network_fetches = 0 \<rparr> \<and>
   caches_match fresh_store (url image_request) = None \<and>
   fetch_twice site_origin (stub_network image_response) fresh_store image_request
     = (Responded (Some image_response), Responded (Some image_response), 1)"
proof -
  have g: "request_method image_request = ''GET''" by code_simp
  have a: "isAllowedOrigin site_origin image_request" by code_simp
  have cur: "cache_match (generation warm_store CACHE_NAME) (url image_request)
      = Some image_response" by code_simp
  have first: "\<forall>e \<in> set (takeWhile (\<lambda>e. fst e \<noteq> CACHE_NAME) warm_store).
      cache_match (snd e) (url image_request) = None" by code_simp
  have miss: "caches_match fresh_store (url image_request) = None" by code_simp
  have ok: "caches_match fresh_store (url image_request) = None \<and>
      stub_network image_response (url image_request) = Resolved (Some image_response) \<and>
      status image_response = 200 \<and> rtype image_response \<noteq> Opaque" by code_simp
  note warm = repeated_get_one_fetch [where net = "stub_network missing_response"
      and cs = warm_store, OF g a]
  note cold = repeated_get_one_fetch [where net = "stub_network image_response"
      and cs = fresh_store, OF g a]
  from warm [THEN conjunct2, THEN conjunct1, rule_format, OF cur, THEN conjunct2, THEN mp,
      OF first]
  have hit: "caches_match warm_store (url image_request) = Some image_response" .
  from warm [THEN conjunct1, rule_format, OF hit]
  have 1: "on_fetch site_origin (stub_network missing_response) warm_store image_request
     = \<lparr> outcome = Responded (Some image_response), store = warm_store,
         network_fetches = 0 \<rparr>" by (rule conjunct1)
  from cold [THEN conjunct2, THEN conjunct2, rule_format, OF ok]
  have 2: "fetch_twice site_origin (stub_network image_response) fresh_store image_request
     = (Responded (Some image_response), Responded (Some image_response), 1)" .
  show ?thesis by (intro conjI g a cur 1 miss 2)
qed

text \<open>
  Claim C2 as stated does not hold for every response: when the network answers with
  status 404 the response is not stored, and the same \<open>GET\<close> handled twice makes two
  network fetches.
\<close>

theorem repeated_get_fetches_twice:
  "request_method image_request = ''GET'' \<and> isAllowedOrigin site_origin image_request \<and>
   fetch_twice site_origin (stub_network missing_response) fresh_store image_request
     = (Responded (Some missing_response), Responded (Some missing_response), 2)"
  by code_simp

subsection \<open>Claim C3: a failed install\<close>

lemma fetch_all_fails:
  assumes "\<exists>u \<in> set us. addAll_response net u = None"
  shows "fetch_all net us = None"
  using assms by (induction us) (auto split: option.splits)

text \<open>
  Claim C3.  When the fetch of some URL of the manifest fails, the install fails, the
  worker is discarded instead of activated, and the storage is the one that opening the
  current cache gives: no cache has gained an entry, and no other cache was deleted.
\<close>

theorem failed_install_adds_nothing:
  assumes "\<exists>u \<in> set urlsToCache. addAll_response net u = None"
  shows "on_install net cs = (InstallFailed, caches_open cs CACHE_NAME) \<and>
         deploy net cs = (Redundant, caches_open cs CACHE_NAME) \<and>
         (\<forall>name. generation (caches_open cs CACHE_NAME) name = generation cs name) \<and>
         (\<forall>key. caches_match (caches_open cs CACHE_NAME) key = caches_match cs key)"
proof -
  have none: "cache_addAll net c urlsToCache = None" for c
    by (simp add: cache_addAll_def fetch_all_fails [OF assms])
  have inst: "on_install net cs = (InstallFailed, caches_open cs CACHE_NAME)"
    by (simp add: on_install_def Let_def none)
  then have "deploy net cs = (Redundant, caches_open cs CACHE_NAME)"
    by (simp add: deploy_def)
  with inst show ?thesis
    by (simp add: generation_open caches_match_open)
qed

text \<open>
  An instance of C3: the fetch of one script of the manifest rejects; the install
  fails, the cache of the previous version stays, and the new cache is empty.
\<close>

theorem failed_install_adds_nothing_witness:
  "(\<exists>u \<in> set urlsToCache. addAll_response flaky_network u = None) \<and>
   on_install flaky_network old_store = (InstallFailed, old_store @ [(CACHE_NAME, [])]) \<and>
   deploy flaky_network old_store = (Redundant, old_store @ [(CACHE_NAME, [])])"
proof -
  have h: "\<exists>u \<in> set urlsToCache. addAll_response flaky_network u = None"
    by code_simp
  have o: "caches_open old_store CACHE_NAME = old_store @ [(CACHE_NAME, [])]"
    by code_simp
  note t = failed_install_adds_nothing [OF h, of old_store]
  from t have 1: "on_install flaky_network old_store
      = (InstallFailed, caches_open old_store CACHE_NAME)" by (rule conjunct1)
  from t have 2: "deploy flaky_network old_store
      = (Redundant, caches_open old_store CACHE_NAME)" by (rule conjunct2 [THEN conjunct1])
  show ?thesis
    using h 1 2 by (simp only: o)
qed

subsection \<open>Claim C6: a cache miss\<close>

text \<open>
  Claim C6, as amended.  On a cache miss of a \<open>GET\<close> request to an allowed origin
  the handler makes one network fetch.  When the fetch rejects, so does the response.
  When the response is absent, has a status other than 200, or is opaque, it is
  returned and the storage stays as it is.  When the response has status 200 and is
  not opaque, it is returned, the current cache holds it under the request's URL
  afterwards, and every other entry of every cache is as before.
\<close>

theorem miss_stores_status_200:
  assumes get: "request_method req = ''GET''" and allowed: "isAllowedOrigin self_origin req"
    and miss: "caches_match cs (url req) = None"
  shows "(net (url req) = Rejected \<longrightarrow>
            on_fetch self_origin net cs req
              = \<lparr> outcome = RespondedRejected, store = cs, network_fetches = 1 \<rparr>) \<and>
         (net (url req) = Resolved None \<longrightarrow>
            on_fetch self_origin net cs req
              = \<lparr> outcome = Responded None, store = cs, network_fetches = 1 \<rparr>) \<and>
         (\<forall>r. net (url req) = Resolved (Some r) \<and> (status r \<noteq> 200 \<or> rtype r = Opaque) \<longrightarrow>
            on_fetch self_origin net cs req
              = \<lparr> outcome = Responded (Some r), store = cs, network_fetches = 1 \<rparr>) \<and>
         (\<forall>r. net (url req) = Resolved (Some r) \<and> status r = 200 \<and> rtype r \<noteq> Opaque \<longrightarrow>
            outcome (on_fetch self_origin net cs req) = Responded (Some r) \<and>
            network_fetches (on_fetch self_origin net cs req) = 1 \<and>
            cache_match (generation (store (on_fetch self_origin net cs req)) CACHE_NAME) (url req)
              = Some r \<and>
            (\<forall>name key. name \<noteq> CACHE_NAME \<or> key \<noteq> url req \<longrightarrow>
               cache_match (generation (store (on_fetch self_origin net cs req)) name) key
                 = cache_match (generation cs name) key))"
proof (intro conjI allI impI)
  assume "net (url req) = Rejected"
  then show "on_fetch self_origin net cs req
      = \<lparr> outcome = RespondedRejected, store = cs, network_fetches = 1 \<rparr>"
    using get allowed miss by (simp add: on_fetch_def)
next
  assume "net (url req) = Resolved None"
  then show "on_fetch self_origin net cs req
      = \<lparr> outcome = Responded None, store = cs, network_fetches = 1 \<rparr>"
    using get allowed miss by (simp add: on_fetch_def)
next
  fix r
  assume "net (url req) = Resolved (Some r) \<and> (status r \<noteq> 200 \<or> rtype r = Opaque)"
  then have "net (url req) = Resolved (Some r)" "status r \<noteq> 200 \<or> rtype r = Opaque"
    by blast+
  then show "on_fetch self_origin net cs req
      = \<lparr> outcome = Responded (Some r), store = cs, network_fetches = 1 \<rparr>"
    by (rule on_fetch_not_stored [where net = net, OF get allowed miss])
next
  fix r
  assume a: "net (url req) = Resolved (Some r) \<and> status r = 200 \<and> rtype r \<noteq> Opaque"
  let ?open = "caches_open cs CACHE_NAME"
  let ?cs' = "caches_update ?open CACHE_NAME (cache_put (generation ?open CACHE_NAME) (url req) r)"
  from a have n: "net (url req) = Resolved (Some r)" and st: "status r = 200"
    and ty: "rtype r \<noteq> Opaque"
    by blast+
  have h: "on_fetch self_origin net cs req
      = \<lparr> outcome = Responded (Some r), store = ?cs', network_fetches = 1 \<rparr>"
    by (rule on_fetch_stored [where net = net, OF get allowed miss n st ty])
  show "outcome (on_fetch self_origin net cs req) = Responded (Some r)"
    by (simp add: h)
  show "network_fetches (on_fetch self_origin net cs req) = 1"
    by (simp add: h)
  have cur: "generation ?cs' CACHE_NAME = cache_put (generation ?open CACHE_NAME) (url req) r"
    by (rule generation_update_same [OF open_has_name])
  show "cache_match (generation (store (on_fetch self_origin net cs req)) CACHE_NAME) (url req)
      = Some r"
    by (simp add: h cur cache_match_put)
  fix name key
  assume other: "name \<noteq> CACHE_NAME \<or> key \<noteq> url req"
  show "cache_match (generation (store (on_fetch self_origin net cs req)) name) key
      = cache_match (generation cs name) key"
  proof (cases "name = CACHE_NAME")
    case True
    with other have "key \<noteq> url req" by blast
    then have "cache_match (generation ?cs' CACHE_NAME) key
        = cache_match (generation ?open CACHE_NAME) key"
      by (simp only: cur cache_match_put if_False)
    then show ?thesis
      by (simp add: h True generation_open)
  next
    case False
    then show ?thesis
      by (simp add: h generation_update_other generation_open)
  qed
qed

text \<open>
  Instances of C6: a response with status 200 is stored, a response with status 404 is
  returned and not stored.
\<close>

theorem miss_stores_status_200_witness:
  "request_method image_request = ''GET'' \<and> isAllowedOrigin site_origin image_request \<and>
   caches_match fresh_store (url image_request) = None \<and>
   cache_match
     (generation
        (store (on_fetch site_origin (stub_network image_response) fresh_store image_request))
        CACHE_NAME)
     (url image_request) = Some image_response \<and>
   on_fetch site_origin (stub_network missing_response) fresh_store image_request
     = \<lparr> outcome = Responded (Some missing_response), store = fresh_store,
         network_fetches = 1 \<rparr>"
proof -
  have g: "request_method image_request = ''GET''" by code_simp
  have a: "isAllowedOrigin site_origin image_request" by code_simp
  have miss: "caches_match fresh_store (url image_request) = None" by code_simp
  have ok: "stub_network image_response (url image_request) = Resolved (Some image_response) \<and>
      status image_response = 200 \<and> rtype image_response \<noteq> Opaque" by code_simp
  have bad: "stub_network missing_response (url image_request)
        = Resolved (Some missing_response) \<and>
      (status missing_response \<noteq> 200 \<or> rtype missing_response = Opaque)" by code_simp
  note good = miss_stores_status_200 [where net = "stub_network image_response", OF g a miss]
  note poor = miss_stores_status_200 [where net = "stub_network missing_response", OF g a miss]
  from good [THEN conjunct2, THEN conjunct2, THEN conjunct2, rule_format, OF ok]
  have 1: "cache_match
     (generation
        (store (on_fetch site_origin (stub_network image_response) fresh_store image_request))
        CACHE_NAME)
     (url image_request) = Some image_response"
    by (rule conjunct2 [THEN conjunct2, THEN conjunct1])
  from poor [THEN conjunct2, THEN conjunct2, THEN conjunct1, rule_format, OF bad]
  have 2: "on_fetch site_origin (stub_network missing_response) fresh_store image_request
     = \<lparr> outcome = Responded (Some missing_response), store = fresh_store,
         network_fetches = 1 \<rparr>" .
  show ?thesis by (intro conjI g a miss 1 2)
qed

text \<open>
  Claim C6 as stated does not hold for every successful response: a response with the
  successful status 204 that is not opaque is returned and not stored, since the handler
  stores a response only when its status is 200.
\<close>

theorem successful_204_not_stored:
  "request_method image_request = ''GET'' \<and> isAllowedOrigin site_origin image_request \<and>
   caches_match fresh_store (url image_request) = None \<and>
   ok_status (status no_content_response) \<and> rtype no_content_response \<noteq> Opaque \<and>
   on_fetch site_origin (stub_network no_content_response) fresh_store image_request
     = \<lparr> outcome = Responded (Some no_content_response), store = fresh_store,
         network_fetches = 1 \<rparr>"
  by code_simp

end
